theory Spec2Isabelle
  imports Complex_Main "HOL-Library.Code_Target_Numeral"
begin

section \<open>Text: Python strings as lists of code points\<close>

text \<open>
  A Python \<^verbatim>\<open>str\<close> is a sequence of Unicode code points. A code point is a natural
  number here, so that every character of a statement (umlauts, the euro sign, the
  minus sign U+2212 of the formatter) is one element, as \<^verbatim>\<open>len\<close> and the regular
  expression engine count it.
\<close>

type_synonym uchar = nat
type_synonym ustring = "nat list"

definition ustr :: "string \<Rightarrow> ustring" where
  "ustr s = map of_char s"

text \<open>
  \<^verbatim>\<open>str.isspace\<close>, which is also the class \<^verbatim>\<open>\s\<close> of \<^verbatim>\<open>re\<close> on \<^verbatim>\<open>str\<close> patterns and the
  set that \<^verbatim>\<open>str.strip()\<close> removes.
\<close>

definition is_space :: "uchar \<Rightarrow> bool" where
  "is_space c \<longleftrightarrow>
     (9 \<le> c \<and> c \<le> 13) \<or> (28 \<le> c \<and> c \<le> 32) \<or> c = 0x85 \<or> c = 0xA0 \<or> c = 0x1680 \<or>
     (0x2000 \<le> c \<and> c \<le> 0x200A) \<or> c = 0x2028 \<or> c = 0x2029 \<or> c = 0x202F \<or>
     c = 0x205F \<or> c = 0x3000"

text \<open>
  The class \<^verbatim>\<open>\d\<close> of \<^verbatim>\<open>re\<close> on \<^verbatim>\<open>str\<close> patterns is \<^verbatim>\<open>str.isdecimal\<close>: the Unicode
  category Nd, which comes in runs of ten code points with the values 0 to 9. The
  table lists the code point of each zero (Unicode 14.0, the database of CPython 3.11).
  \<^verbatim>\<open>int\<close> and \<^verbatim>\<open>Decimal\<close> read every such digit with its value.
\<close>

definition decimal_zeros :: "nat list" where
  "decimal_zeros =
     [0x30, 0x660, 0x6F0, 0x7C0, 0x966, 0x9E6, 0xA66, 0xAE6, 0xB66, 0xBE6, 0xC66, 0xCE6,
      0xD66, 0xDE6, 0xE50, 0xED0, 0xF20, 0x1040, 0x1090, 0x17E0, 0x1810, 0x1946, 0x19D0,
      0x1A80, 0x1A90, 0x1B50, 0x1BB0, 0x1C40, 0x1C50, 0xA620, 0xA8D0, 0xA900, 0xA9D0,
      0xA9F0, 0xAA50, 0xABF0, 0xFF10, 0x104A0, 0x10D30, 0x11066, 0x110F0, 0x11136,
      0x111D0, 0x112F0, 0x11450, 0x114D0, 0x11650, 0x116C0, 0x11730, 0x118E0, 0x11950,
      0x11C50, 0x11D50, 0x11DA0, 0x16A60, 0x16AC0, 0x16B50, 0x1D7CE, 0x1D7D8, 0x1D7E2,
      0x1D7EC, 0x1D7F6, 0x1E140, 0x1E2F0, 0x1E950, 0x1FBF0]"

definition decimal_value :: "uchar \<Rightarrow> nat option" where
  "decimal_value c =
     (case filter (\<lambda>z. z \<le> c \<and> c < z + 10) decimal_zeros of
        [] \<Rightarrow> None
      | z # _ \<Rightarrow> Some (c - z))"

definition is_digit :: "uchar \<Rightarrow> bool" where
  "is_digit c \<longleftrightarrow> decimal_value c \<noteq> None"

definition strip :: "ustring \<Rightarrow> ustring" where
  "strip s = rev (dropWhile is_space (rev (dropWhile is_space s)))"

text \<open>\<^verbatim>\<open>text.split('\n')\<close>: the pieces between line feeds; never an empty list.\<close>

fun split_nl :: "ustring \<Rightarrow> ustring list" where
  "split_nl [] = [[]]"
| "split_nl (c # cs) =
     (if c = 10 then [] # split_nl cs
      else (case split_nl cs of l # ls \<Rightarrow> (c # l) # ls | [] \<Rightarrow> [[c]]))"

text \<open>\<^verbatim>\<open>sep.join(parts)\<close>.\<close>

fun join :: "ustring \<Rightarrow> ustring list \<Rightarrow> ustring" where
  "join sep [] = []"
| "join sep [p] = p"
| "join sep (p # q # ps) = p @ sep @ join sep (q # ps)"

text \<open>\<^verbatim>\<open>s.replace(old, new)\<close> for a one-character \<^verbatim>\<open>old\<close>.\<close>

definition replace :: "uchar \<Rightarrow> ustring \<Rightarrow> ustring \<Rightarrow> ustring" where
  "replace old new s = concat (map (\<lambda>c. if c = old then new else [c]) s)"

section \<open>Regular expressions\<close>

text \<open>
  The fragment of \<^verbatim>\<open>re\<close> that the patterns of the program and of
  \<^verbatim>\<open>datetime.strptime\<close> use: literals, repetition of a character class (greedy or
  lazy, with bounds), sequence, ordered alternative, capture group, \<^verbatim>\<open>^\<close> and \<^verbatim>\<open>$\<close>.
  The matcher is the backtracking one of \<^verbatim>\<open>re\<close>: it passes the rest of the pattern
  as a continuation and returns the first success in the order in which \<^verbatim>\<open>re\<close> tries
  the choices (more characters first for a greedy repetition, fewer first for a lazy
  one, the left alternative first).
\<close>

datatype re =
    Lit ustring
  | Rep "uchar \<Rightarrow> bool" nat "nat option" bool
  | Cat re re
  | Alt re re
  | Grp nat re
  | Bol
  | Eol

type_synonym caps = "(nat \<times> nat \<times> nat) list"

fun first_some :: "('a \<Rightarrow> 'b option) \<Rightarrow> 'a list \<Rightarrow> 'b option" where
  "first_some f [] = None"
| "first_some f (x # xs) = (case f x of Some y \<Rightarrow> Some y | None \<Rightarrow> first_some f xs)"

primrec rmatch ::
  "re \<Rightarrow> ustring \<Rightarrow> (nat \<Rightarrow> caps \<Rightarrow> (nat \<times> caps) option) \<Rightarrow> nat \<Rightarrow> caps \<Rightarrow> (nat \<times> caps) option"
where
  "rmatch (Lit l) s k i c =
     (if take (length l) (drop i s) = l then k (i + length l) c else None)"
| "rmatch (Rep p lo hi greedy) s k i c =
     (let avail = length (takeWhile p (drop i s));
          mx = (case hi of None \<Rightarrow> avail | Some h \<Rightarrow> min h avail)
      in if mx < lo then None
         else first_some (\<lambda>n. k (i + n) c)
                (if greedy then rev [lo ..< Suc mx] else [lo ..< Suc mx]))"
| "rmatch (Cat a b) s k i c = rmatch a s (rmatch b s k) i c"
| "rmatch (Alt a b) s k i c =
     (case rmatch a s k i c of Some r \<Rightarrow> Some r | None \<Rightarrow> rmatch b s k i c)"
| "rmatch (Grp n r) s k i c = rmatch r s (\<lambda>j c'. k j ((n, i, j) # c')) i c"
| "rmatch Bol s k i c = (if i = 0 then k i c else None)"
| "rmatch Eol s k i c =
     (if i = length s \<or> (Suc i = length s \<and> s ! i = 10) then k i c else None)"

text \<open>
  A match object: the subject, the end of the match and the groups.
  \<^verbatim>\<open>re.match\<close> tries position 0 only, \<^verbatim>\<open>re.search\<close> every position from the left.
\<close>

type_synonym rmatch_obj = "ustring \<times> nat \<times> caps"

definition re_match :: "re \<Rightarrow> ustring \<Rightarrow> rmatch_obj option" where
  "re_match p s = map_option (\<lambda>(j, c). (s, j, c)) (rmatch p s (\<lambda>j c. Some (j, c)) 0 [])"

definition re_search :: "re \<Rightarrow> ustring \<Rightarrow> rmatch_obj option" where
  "re_search p s =
     map_option (\<lambda>(j, c). (s, j, c))
       (first_some (\<lambda>i. rmatch p s (\<lambda>j c. Some (j, c)) i []) [0 ..< Suc (length s)])"

definition match_end :: "rmatch_obj \<Rightarrow> nat" where
  "match_end m = (case m of (s, j, c) \<Rightarrow> j)"

definition group :: "rmatch_obj \<Rightarrow> nat \<Rightarrow> ustring" where
  "group m n =
     (case m of (s, j, c) \<Rightarrow>
        (case map_of c n of Some (b, e) \<Rightarrow> take (e - b) (drop b s) | None \<Rightarrow> []))"

fun cats :: "re list \<Rightarrow> re" where
  "cats [] = Lit []"
| "cats [r] = r"
| "cats (r # rs) = Cat r (cats rs)"

fun alts :: "re list \<Rightarrow> re" where
  "alts [] = Lit []"
| "alts [r] = r"
| "alts (r # rs) = Alt r (alts rs)"

definition digits :: "nat \<Rightarrow> re" where
  "digits n = Rep is_digit n (Some n) True"

definition one_of :: "(uchar \<Rightarrow> bool) \<Rightarrow> re" where
  "one_of p = Rep p 1 (Some 1) True"

definition between :: "string \<Rightarrow> string \<Rightarrow> uchar \<Rightarrow> bool" where
  "between a b c \<longleftrightarrow> (case (ustr a, ustr b) of ([lo], [hi]) \<Rightarrow> lo \<le> c \<and> c \<le> hi | _ \<Rightarrow> False)"


section \<open>Errors\<close>

text \<open>
  One constructor for each place where the program, or the library call it makes,
  raises:
  \<^item> \<open>MissingStatementDate\<close>: \<^verbatim>\<open>ValueError("Could not find statement date in PDF")\<close>;
  \<^item> \<open>YearNotResolved\<close>: \<^verbatim>\<open>ValueError("Year not extracted from statement header")\<close>;
  \<^item> \<open>InvalidDate\<close>: the \<^verbatim>\<open>ValueError\<close> of \<^verbatim>\<open>datetime.strptime\<close>;
  \<^item> \<open>MalformedAmount\<close>: \<^verbatim>\<open>decimal.InvalidOperation\<close> of \<^verbatim>\<open>Decimal(...)\<close>;
  \<^item> \<open>AmountOverflow\<close>: \<^verbatim>\<open>decimal.Overflow\<close>, trapped by the default context;
  \<^item> \<open>IndexError\<close>: a list index out of range;
  \<^item> \<open>EmptyTransactions\<close>: \<^verbatim>\<open>ValueError("Cannot write CSV: transactions list is empty")\<close>;
  \<^item> \<open>InvalidDestination\<close>: \<^verbatim>\<open>ValueError("Output file must have .csv extension: ...")\<close>;
  \<^item> \<open>PermissionError\<close> and \<open>OSError\<close>: what \<^verbatim>\<open>open\<close> raises.
\<close>

datatype error =
    MissingStatementDate
  | YearNotResolved
  | InvalidDate
  | MalformedAmount
  | AmountOverflow
  | IndexError
  | EmptyTransactions
  | InvalidDestination
  | PermissionError
  | OSError

section \<open>Dates\<close>

record date =
  year_of :: nat
  month_of :: nat
  day_of :: nat

definition is_leap :: "nat \<Rightarrow> bool" where
  "is_leap y \<longleftrightarrow> y mod 4 = 0 \<and> (y mod 100 \<noteq> 0 \<or> y mod 400 = 0)"

definition days_in_month :: "nat \<Rightarrow> nat \<Rightarrow> nat" where
  "days_in_month y m =
     (if m = 2 then (if is_leap y then 29 else 28)
      else if m = 4 \<or> m = 6 \<or> m = 9 \<or> m = 11 then 30 else 31)"

text \<open>The constructor \<^verbatim>\<open>datetime.date(year, month, day)\<close>, which raises on a date that
  is not in the calendar (MINYEAR is 1, MAXYEAR is 9999).\<close>

definition make_date :: "nat \<Rightarrow> nat \<Rightarrow> nat \<Rightarrow> error + date" where
  "make_date y m d =
     (if 1 \<le> y \<and> y \<le> 9999 \<and> 1 \<le> m \<and> m \<le> 12 \<and> 1 \<le> d \<and> d \<le> days_in_month y m
      then Inr \<lparr>year_of = y, month_of = m, day_of = d\<rparr>
      else Inl InvalidDate)"

definition dval :: "uchar \<Rightarrow> nat" where
  "dval c = (case decimal_value c of Some v \<Rightarrow> v | None \<Rightarrow> 0)"

definition digits_value :: "ustring \<Rightarrow> nat" where
  "digits_value s = foldl (\<lambda>a c. 10 * a + dval c) 0 s"

text \<open>\<^verbatim>\<open>int(s)\<close> on the strings that the groups of the date pattern can hold: digits,
  after white space is stripped.\<close>

definition py_int :: "ustring \<Rightarrow> nat option" where
  "py_int s =
     (let t = strip s
      in if t \<noteq> [] \<and> list_all is_digit t then Some (digits_value t) else None)"

text \<open>
  The pattern that \<^verbatim>\<open>_strptime\<close> compiles for the format \<^verbatim>\<open>'%d.%m.%Y'\<close>:
  \<^verbatim>\<open>(?P<d>3[0-1]|[1-2]\d|0[1-9]|[1-9]| [1-9])\.(?P<m>1[0-2]|0[1-9]|[1-9])\.(?P<Y>\d\d\d\d)\<close>
  (groups d, m, Y are 1, 2, 3 here).
\<close>

definition STRPTIME_PATTERN :: re where
  "STRPTIME_PATTERN =
     cats [
       Grp 1 (alts [
         Cat (Lit (ustr ''3'')) (one_of (between ''0'' ''1'')),
         Cat (one_of (between ''1'' ''2'')) (digits 1),
         Cat (Lit (ustr ''0'')) (one_of (between ''1'' ''9'')),
         one_of (between ''1'' ''9''),
         Cat (Lit (ustr '' '')) (one_of (between ''1'' ''9''))]),
       Lit (ustr ''.''),
       Grp 2 (alts [
         Cat (Lit (ustr ''1'')) (one_of (between ''0'' ''2'')),
         Cat (Lit (ustr ''0'')) (one_of (between ''1'' ''9'')),
         one_of (between ''1'' ''9'')]),
       Lit (ustr ''.''),
       Grp 3 (cats [digits 1, digits 1, digits 1, digits 1])]"

text \<open>
  \<^verbatim>\<open>datetime.strptime(s, '%d.%m.%Y')\<close>, as a date (the time of day is midnight and
  the program only ever takes \<^verbatim>\<open>.date()\<close>). It raises when the pattern does not match
  at the start, when text remains after the match, and when the date is not in the
  calendar.
\<close>

definition strptime :: "ustring \<Rightarrow> error + date" where
  "strptime s =
     (case re_match STRPTIME_PATTERN s of
        None \<Rightarrow> Inl InvalidDate
      | Some m \<Rightarrow>
          if match_end m \<noteq> length s then Inl InvalidDate
          else (case (py_int (group m 3), py_int (group m 2), py_int (group m 1)) of
                  (Some y, Some mo, Some d) \<Rightarrow> make_date y mo d
                | _ \<Rightarrow> Inl InvalidDate))"


section \<open>Decimal\<close>

text \<open>
  A finite \<^verbatim>\<open>decimal.Decimal\<close>: sign, coefficient and exponent; its value is
  \<open>\<plusminus> coeff * 10 ^ expo\<close>. Python's \<^verbatim>\<open>==\<close>, \<^verbatim>\<open><\<close> and \<^verbatim>\<open>float\<close> see the value only.
\<close>

record decimal =
  sign :: bool
  coeff :: nat
  expo :: int

definition dec_value :: "decimal \<Rightarrow> rat" where
  "dec_value d =
     (if sign d then - 1 else 1) * of_nat (coeff d) *
     (if 0 \<le> expo d then 10 ^ nat (expo d) else 1 / 10 ^ nat (- expo d))"

text \<open>
  The constructor \<^verbatim>\<open>Decimal(s)\<close> on a numeral: an optional sign, digits, and an
  optional point with more digits, at least one digit in all. The conversion is exact:
  the context does not apply. The model covers the strings made of digits, points and
  signs, which are all that the amount pattern lets through; CPython's constructor
  reads more (white space around the numeral, underscores, an exponent, the words
  \<^verbatim>\<open>Infinity\<close> and \<^verbatim>\<open>NaN\<close>), and those forms are answered \<open>None\<close> here like every
  other string. \<open>None\<close> is \<^verbatim>\<open>decimal.InvalidOperation\<close>.
\<close>

definition py_Decimal :: "ustring \<Rightarrow> decimal option" where
  "py_Decimal s =
     (let (sg, body) =
            (case s of
               [] \<Rightarrow> (False, [])
             | c # r \<Rightarrow> if c = 45 then (True, r) else if c = 43 then (False, r) else (False, s));
          ip = takeWhile is_digit body;
          rest = dropWhile is_digit body
      in case rest of
           [] \<Rightarrow> if ip = [] then None
                 else Some \<lparr>sign = sg, coeff = digits_value ip, expo = 0\<rparr>
         | c # fp \<Rightarrow>
             if c = 46 \<and> list_all is_digit fp \<and> (ip \<noteq> [] \<or> fp \<noteq> [])
             then Some \<lparr>sign = sg, coeff = digits_value (ip @ fp), expo = - int (length fp)\<rparr>
             else None)"

text \<open>The default context: \<^verbatim>\<open>prec=28, rounding=ROUND_HALF_EVEN, Emin=-999999,
  Emax=999999, clamp=0, traps=[InvalidOperation, DivisionByZero, Overflow]\<close>.\<close>

definition prec :: int where "prec = 28"
definition Emax :: int where "Emax = 999999"
definition Emin :: int where "Emin = - 999999"
definition Etiny :: int where "Etiny = Emin - prec + 1"
definition Etop :: int where "Etop = Emax - prec + 1"

fun ndigits :: "nat \<Rightarrow> nat" where
  "ndigits n = (if n < 10 then 1 else Suc (ndigits (n div 10)))"

declare ndigits.simps [simp del]

text \<open>\<open>a / b\<close> rounded to the nearest integer, a tie to the even one.\<close>

definition rhe_div :: "nat \<Rightarrow> nat \<Rightarrow> nat" where
  "rhe_div a b =
     (let q = a div b; r = a mod b
      in if 2 * r < b then q else if b < 2 * r then q + 1 else if even q then q else q + 1)"

text \<open>
  \<^verbatim>\<open>Decimal._fix(context)\<close> in the default context: a coefficient of more than
  \<open>prec\<close> digits is rounded to \<open>prec\<close> digits, an exponent below \<open>Etiny\<close> is raised to
  it (the coefficient rounded accordingly), and a number whose adjusted exponent
  exceeds \<open>Emax\<close> raises \<^verbatim>\<open>Overflow\<close>. Rounding and underflow only set flags.
\<close>

definition dec_fix :: "decimal \<Rightarrow> error + decimal" where
  "dec_fix d =
     (if coeff d = 0 then Inr (d\<lparr>expo := min (max (expo d) Etiny) Emax\<rparr>)
      else
        let exp_min0 = int (ndigits (coeff d)) + expo d - prec
        in if Etop < exp_min0 then Inl AmountOverflow
           else
             let exp_min = max exp_min0 Etiny
             in if expo d < exp_min then
                  (let c1 = rhe_div (coeff d) (10 ^ nat (exp_min - expo d));
                       (c2, e2) = (if prec < int (ndigits c1) then (c1 div 10, exp_min + 1)
                                   else (c1, exp_min))
                   in if Etop < e2 then Inl AmountOverflow
                      else Inr \<lparr>sign = sign d, coeff = c2, expo = e2\<rparr>)
                else Inr d)"

text \<open>Unary minus, \<^verbatim>\<open>Decimal.__neg__\<close>: the sign is switched (a zero becomes a
  positive zero) and the result is rounded to the context.\<close>

definition neg :: "decimal \<Rightarrow> error + decimal" where
  "neg d = dec_fix (if coeff d = 0 then d\<lparr>sign := False\<rparr> else d\<lparr>sign := \<not> sign d\<rparr>)"

section \<open>The data model (models.py)\<close>

record Transaction =
  buchungsdatum :: date
  valuta :: date
  beschreibung :: ustring
  betrag :: decimal
  waehrung :: ustring
  gegenkonto_iban :: "ustring option"
  gegenkonto_bic :: "ustring option"
  verwendungszweck :: "ustring option"

definition is_debit :: "Transaction \<Rightarrow> bool" where
  "is_debit t \<longleftrightarrow> dec_value (betrag t) < 0"

definition is_credit :: "Transaction \<Rightarrow> bool" where
  "is_credit t \<longleftrightarrow> 0 < dec_value (betrag t)"

section \<open>The statement parser (transaction\_parser.py)\<close>

record TransactionParser =
  verbose :: bool
  year :: "int option"

definition init_parser :: "bool \<Rightarrow> TransactionParser" where
  "init_parser v = \<lparr>verbose = v, year = None\<rparr>"

text \<open>\<^verbatim>\<open>Kontoauszug vom (\d{2}\.\d{2}\.\d{4})\<close>\<close>

definition STATEMENT_DATE_PATTERN :: re where
  "STATEMENT_DATE_PATTERN =
     cats [Lit (ustr ''Kontoauszug vom ''),
           Grp 1 (cats [digits 2, Lit (ustr ''.''), digits 2, Lit (ustr ''.''), digits 4])]"

text \<open>\<^verbatim>\<open>Buchungsdatum: (\d{2}\.\d{2}\.\d{4})\<close>\<close>

definition BOOKING_DATE_PATTERN :: re where
  "BOOKING_DATE_PATTERN =
     cats [Lit (ustr ''Buchungsdatum: ''),
           Grp 1 (cats [digits 2, Lit (ustr ''.''), digits 2, Lit (ustr ''.''), digits 4])]"

text \<open>\<^verbatim>\<open>^(.+?)\s+(\d{2}\.\d{2})\s+([\d.,]+[-]?)$\<close>\<close>

definition TRANSACTION_PATTERN :: re where
  "TRANSACTION_PATTERN =
     cats [Bol,
           Grp 1 (Rep (\<lambda>c. c \<noteq> 10) 1 None False),
           Rep is_space 1 None True,
           Grp 2 (cats [digits 2, Lit (ustr ''.''), digits 2]),
           Rep is_space 1 None True,
           Grp 3 (cats [Rep (\<lambda>c. is_digit c \<or> c = 46 \<or> c = 44) 1 None True,
                        Rep (\<lambda>c. c = 45) 0 (Some 1) True]),
           Eol]"

text \<open>The list \<^verbatim>\<open>skip_patterns\<close> of \<^verbatim>\<open>_is_non_transaction_line\<close>; U+00E4 is the
  letter a with diaeresis.\<close>

definition skip_patterns :: "re list" where
  "skip_patterns =
     [Cat Bol (Lit (ustr ''Buchungsdatum:'')),
      Lit (ustr ''End-to-End-Ref''),
      Cat Bol (Lit (ustr ''Mandatsref:'')),
      Cat Bol (Lit (ustr ''Gl'' @ [0xE4] @ ustr ''ubiger-ID:'')),
      Cat Bol (Lit (ustr ''SEPA-'')),
      Cat Bol (Lit (ustr ''Folgeseite'')),
      Cat Bol (Lit (ustr ''Kontoauszug vom'')),
      Cat Bol (Lit (ustr ''Auszug-Nr.'')),
      Cat Bol (Lit (ustr ''IBAN:'')),
      Cat Bol (Lit (ustr ''BIC'')),
      Cat Bol (Lit (ustr ''Kontow'' @ [0xE4] @ ustr ''hrung'')),
      Cat Bol (Lit (ustr ''Angaben zu den Ums'' @ [0xE4] @ ustr ''tzen''))]"

definition is_non_transaction_line :: "ustring \<Rightarrow> bool" where
  "is_non_transaction_line line = list_ex (\<lambda>p. re_search p line \<noteq> None) skip_patterns"

definition parse_date :: "ustring \<Rightarrow> error + date" where
  "parse_date date_str = strptime date_str"

definition extract_year :: "TransactionParser \<Rightarrow> ustring \<Rightarrow> error + TransactionParser" where
  "extract_year self text =
     (case re_search STATEMENT_DATE_PATTERN text of
        None \<Rightarrow> Inl MissingStatementDate
      | Some m \<Rightarrow>
          (case strptime (group m 1) of
             Inl e \<Rightarrow> Inl e
           | Inr date_obj \<Rightarrow> Inr (self\<lparr>year := Some (int (year_of date_obj))\<rparr>)))"

text \<open>\<^verbatim>\<open>str(n)\<close> for an integer.\<close>

fun show_nat :: "nat \<Rightarrow> ustring" where
  "show_nat n = (if n < 10 then [48 + n] else show_nat (n div 10) @ [48 + n mod 10])"

declare show_nat.simps [simp del]

definition str_int :: "int \<Rightarrow> ustring" where
  "str_int i = (if i < 0 then 45 # show_nat (nat (- i)) else show_nat (nat i))"

text \<open>\<^verbatim>\<open>if not self.year\<close> holds for \<^verbatim>\<open>None\<close> and for \<^verbatim>\<open>0\<close>.\<close>

definition parse_valuta :: "TransactionParser \<Rightarrow> ustring \<Rightarrow> error + date" where
  "parse_valuta self valuta_str =
     (case year self of
        None \<Rightarrow> Inl YearNotResolved
      | Some y \<Rightarrow>
          if y = 0 then Inl YearNotResolved
          else strptime (valuta_str @ ustr ''.'' @ str_int y))"

text \<open>\<^verbatim>\<open>s.endswith('-')\<close> and \<^verbatim>\<open>s.rstrip('-')\<close>.\<close>

definition ends_with_minus :: "ustring \<Rightarrow> bool" where
  "ends_with_minus s \<longleftrightarrow> s \<noteq> [] \<and> last s = 45"

definition rstrip_minus :: "ustring \<Rightarrow> ustring" where
  "rstrip_minus s = rev (dropWhile (\<lambda>c. c = 45) (rev s))"

definition parse_betrag :: "ustring \<Rightarrow> error + decimal" where
  "parse_betrag betrag_str =
     (let is_negative = ends_with_minus betrag_str;
          s1 = rstrip_minus betrag_str;
          s2 = replace 44 [46] (replace 46 [] s1)
      in case py_Decimal s2 of
           None \<Rightarrow> Inl MalformedAmount
         | Some amount \<Rightarrow> if is_negative then neg amount else Inr amount)"

text \<open>The loop of \<^verbatim>\<open>_collect_description\<close> over the indices of the window, with its
  \<^verbatim>\<open>break\<close> and \<^verbatim>\<open>continue\<close>.\<close>

fun collect_loop :: "ustring list \<Rightarrow> nat list \<Rightarrow> ustring list \<Rightarrow> ustring list" where
  "collect_loop lines [] description_parts = description_parts"
| "collect_loop lines (i # rest) description_parts =
     (let line = strip (lines ! i)
      in if re_search TRANSACTION_PATTERN line \<noteq> None then description_parts
         else if re_search BOOKING_DATE_PATTERN line \<noteq> None then description_parts
         else if line = [] then collect_loop lines rest description_parts
         else if is_non_transaction_line line then collect_loop lines rest description_parts
         else collect_loop lines rest (description_parts @ [line]))"

definition collect_description :: "ustring list \<Rightarrow> nat \<Rightarrow> ustring \<Rightarrow> ustring" where
  "collect_description lines start_index initial_desc =
     join (ustr '' '')
       (collect_loop lines [start_index ..< min (start_index + 5) (length lines)] [initial_desc])"

definition try_parse_transaction ::
  "TransactionParser \<Rightarrow> ustring list \<Rightarrow> nat \<Rightarrow> date \<Rightarrow> error + Transaction option" where
  "try_parse_transaction self lines index booking_date =
     (if length lines \<le> index then Inl IndexError
      else
        let line = strip (lines ! index)
        in if line = [] \<or> is_non_transaction_line line then Inr None
           else
             (case re_search TRANSACTION_PATTERN line of
                None \<Rightarrow> Inr None
              | Some m \<Rightarrow>
                  (let beschreibung_s = strip (group m 1);
                       valuta_str = group m 2;
                       betrag_str = group m 3
                   in case parse_valuta self valuta_str of
                        Inl e \<Rightarrow> Inl e
                      | Inr valuta_d \<Rightarrow>
                          (case parse_betrag betrag_str of
                             Inl e \<Rightarrow> Inl e
                           | Inr betrag_d \<Rightarrow>
                               Inr (Some
                                 \<lparr>buchungsdatum = booking_date,
                                  valuta = valuta_d,
                                  beschreibung = beschreibung_s,
                                  betrag = betrag_d,
                                  waehrung = ustr ''EUR'',
                                  gegenkonto_iban = None,
                                  gegenkonto_bic = None,
                                  verwendungszweck =
                                    Some (collect_description lines (index + 1) beschreibung_s)\<rparr>)))))"

text \<open>
  The two nested \<^verbatim>\<open>while\<close> loops of \<^verbatim>\<open>parse\<close>, with the cursor \<open>i\<close> and the list
  \<open>transactions\<close>: \<open>scan\<close> is the outer loop, which looks for a booking-date marker,
  \<open>scan_block\<close> the inner one, which runs under a booking date. When the inner loop
  ends, by \<^verbatim>\<open>break\<close> or at the end of the lines, the outer loop goes on at the same
  cursor.
\<close>

function scan ::
    "TransactionParser \<Rightarrow> ustring list \<Rightarrow> nat \<Rightarrow> Transaction list \<Rightarrow> error + Transaction list"
  and scan_block ::
    "TransactionParser \<Rightarrow> ustring list \<Rightarrow> nat \<Rightarrow> date \<Rightarrow> Transaction list \<Rightarrow> error + Transaction list"
where
  "scan self lines i transactions =
     (if i < length lines then
        (case re_search BOOKING_DATE_PATTERN (strip (lines ! i)) of
           Some booking_match \<Rightarrow>
             (case parse_date (group booking_match 1) of
                Inl e \<Rightarrow> Inl e
              | Inr booking_date \<Rightarrow> scan_block self lines (i + 1) booking_date transactions)
         | None \<Rightarrow> scan self lines (i + 1) transactions)
      else Inr transactions)"
| "scan_block self lines i booking_date transactions =
     (if i < length lines then
        (case try_parse_transaction self lines i booking_date of
           Inl e \<Rightarrow> Inl e
         | Inr (Some tr) \<Rightarrow> scan_block self lines (i + 1) booking_date (transactions @ [tr])
         | Inr None \<Rightarrow>
             if re_search BOOKING_DATE_PATTERN (lines ! i) \<noteq> None
             then scan self lines i transactions
             else scan_block self lines (i + 1) booking_date transactions)
      else scan self lines i transactions)"
  by pat_completeness auto
termination
  by (relation "measure (\<lambda>x. case x of
          Inl (self, lines, i, ts) \<Rightarrow> 2 * (length lines - i)
        | Inr (self, lines, i, bd, ts) \<Rightarrow> 2 * (length lines - i) + 1)") auto

declare scan.simps [simp del] scan_block.simps [simp del]

text \<open>
  \<^verbatim>\<open>parse\<close>: the result, and the parser object after the call (\<^verbatim>\<open>self.year\<close> is set
  by \<^verbatim>\<open>_extract_year\<close>). An exception leaves the function at once: the local list
  \<open>transactions\<close> is lost with it.
\<close>

definition parse ::
  "TransactionParser \<Rightarrow> ustring \<Rightarrow> (error + Transaction list) \<times> TransactionParser" where
  "parse self text =
     (case extract_year self text of
        Inl e \<Rightarrow> (Inl e, self)
      | Inr self' \<Rightarrow> (scan self' (split_nl text) 0 [], self'))"


section \<open>Year resolution\<close>

text \<open>
  Claim C1. When the statement-date header pattern occurs nowhere in the text,
  \<open>parse\<close> raises the missing-statement-date error: its result is that error and no
  list of records, and the parser object is as it was.
\<close>

theorem parse_missing_statement_date:
  "re_search STATEMENT_DATE_PATTERN text = None \<Longrightarrow>
   parse self text = (Inl MissingStatementDate, self)"
  by (simp add: parse_def extract_year_def)

theorem parse_missing_statement_date_witness:
  "re_search STATEMENT_DATE_PATTERN
     (ustr ''Some random text'' @ [10] @ ustr ''Buchungsdatum: 01.04.2021'') = None \<and>
   parse (init_parser False)
     (ustr ''Some random text'' @ [10] @ ustr ''Buchungsdatum: 01.04.2021'')
     = (Inl MissingStatementDate, init_parser False)"
proof -
  have h: "re_search STATEMENT_DATE_PATTERN
     (ustr ''Some random text'' @ [10] @ ustr ''Buchungsdatum: 01.04.2021'') = None"
    by code_simp
  from parse_missing_statement_date [OF h] h show ?thesis by simp
qed

section \<open>Which errors the parser can raise\<close>

lemma make_date_error: "make_date y m d = Inl e \<Longrightarrow> e = InvalidDate"
  by (auto simp: make_date_def split: if_splits)

lemma make_date_year: "make_date y m d = Inr dt \<Longrightarrow> 1 \<le> year_of dt \<and> year_of dt \<le> 9999"
  by (auto simp: make_date_def split: if_splits)

lemma strptime_error: "strptime s = Inl e \<Longrightarrow> e = InvalidDate"
  by (auto simp: strptime_def split: option.splits if_splits dest: make_date_error)

lemma strptime_year: "strptime s = Inr dt \<Longrightarrow> 1 \<le> year_of dt \<and> year_of dt \<le> 9999"
  by (auto simp: strptime_def split: option.splits if_splits dest: make_date_year)

lemma extract_year_resolved:
  "extract_year self text = Inr self' \<Longrightarrow> \<exists>y. year self' = Some y \<and> 1 \<le> y \<and> y \<le> 9999"
  by (auto simp: extract_year_def split: option.splits sum.splits dest: strptime_year)

lemma extract_year_error:
  "extract_year self text = Inl e \<Longrightarrow> e = MissingStatementDate \<or> e = InvalidDate"
  by (auto simp: extract_year_def split: option.splits sum.splits dest: strptime_error)

lemma parse_valuta_error:
  "parse_valuta self v = Inl e \<Longrightarrow>
     e = InvalidDate \<or> (e = YearNotResolved \<and> (year self = None \<or> year self = Some 0))"
  by (auto simp: parse_valuta_def split: option.splits if_splits dest: strptime_error)

lemma dec_fix_error: "dec_fix d = Inl e \<Longrightarrow> e = AmountOverflow"
  unfolding dec_fix_def Let_def
  by (simp split: if_split_asm prod.split_asm)

lemma parse_betrag_error:
  "parse_betrag s = Inl e \<Longrightarrow> e = MalformedAmount \<or> e = AmountOverflow"
  by (auto simp: parse_betrag_def neg_def Let_def split: option.splits if_splits dest: dec_fix_error)

lemma try_parse_transaction_error:
  "try_parse_transaction self lines i bd = Inl e \<Longrightarrow>
     (e = IndexError \<and> length lines \<le> i) \<or> e = InvalidDate \<or> e = MalformedAmount \<or>
     e = AmountOverflow \<or> (e = YearNotResolved \<and> (year self = None \<or> year self = Some 0))"
  by (auto simp: try_parse_transaction_def Let_def
           split: option.splits if_splits sum.splits
           dest: parse_valuta_error parse_betrag_error)

lemma scan_error:
  "(scan self lines i ts = Inl e \<longrightarrow>
      e = InvalidDate \<or> e = MalformedAmount \<or> e = AmountOverflow \<or>
      (e = YearNotResolved \<and> (year self = None \<or> year self = Some 0)))"
  "(scan_block self lines i bd ts = Inl e \<longrightarrow>
      e = InvalidDate \<or> e = MalformedAmount \<or> e = AmountOverflow \<or>
      (e = YearNotResolved \<and> (year self = None \<or> year self = Some 0)))"
proof (induction self lines i ts and self lines i bd ts rule: scan_scan_block.induct)
  case (1 self lines i transactions)
  show ?case
  proof
    assume a: "scan self lines i transactions = Inl e"
    show "e = InvalidDate \<or> e = MalformedAmount \<or> e = AmountOverflow \<or>
      (e = YearNotResolved \<and> (year self = None \<or> year self = Some 0))"
    proof (cases "i < length lines")
      case False
      with a show ?thesis by (simp add: scan.simps [of self lines i])
    next
      case True
      show ?thesis
      proof (cases "re_search BOOKING_DATE_PATTERN (strip (lines ! i))")
        case None
        with True a "1.IH" show ?thesis by (simp add: scan.simps [of self lines i])
      next
        case (Some m)
        show ?thesis
        proof (cases "parse_date (group m 1)")
          case (Inl e')
          with True Some a have "e = e'" by (simp add: scan.simps [of self lines i])
          with Inl show ?thesis by (auto simp: parse_date_def dest: strptime_error)
        next
          case (Inr d)
          with True Some a "1.IH" show ?thesis by (simp add: scan.simps [of self lines i])
        qed
      qed
    qed
  qed
next
  case (2 self lines i booking_date transactions)
  show ?case
  proof
    assume a: "scan_block self lines i booking_date transactions = Inl e"
    show "e = InvalidDate \<or> e = MalformedAmount \<or> e = AmountOverflow \<or>
      (e = YearNotResolved \<and> (year self = None \<or> year self = Some 0))"
    proof (cases "i < length lines")
      case False
      with a "2.IH" show ?thesis by (simp add: scan_block.simps [of self lines i])
    next
      case True
      show ?thesis
      proof (cases "try_parse_transaction self lines i booking_date")
        case (Inl e')
        with True a have "e = e'" by (simp add: scan_block.simps [of self lines i])
        with Inl True show ?thesis by (auto dest: try_parse_transaction_error)
      next
        case (Inr r)
        show ?thesis
        proof (cases r)
          case None
          with True Inr a "2.IH" show ?thesis
            by (simp add: scan_block.simps [of self lines i] split: if_splits)
        next
          case (Some t)
          with True Inr a "2.IH" show ?thesis
            by (simp add: scan_block.simps [of self lines i])
        qed
      qed
    qed
  qed
qed

text \<open>
  Claim C9. A value-date parse on a parser whose year is not resolved raises the
  year-not-resolved error, which is distinct from every other error; and \<open>parse\<close>
  never raises it, whatever the parser object and the text: it resolves the year, or
  aborts, before it scans a line, and a resolved year is at least 1.
\<close>

theorem year_not_resolved_distinct_unreachable:
  "(year self = None \<longrightarrow> parse_valuta self valuta_str = Inl YearNotResolved) \<and>
   fst (parse self text) \<noteq> Inl YearNotResolved"
proof
  show "year self = None \<longrightarrow> parse_valuta self valuta_str = Inl YearNotResolved"
    by (simp add: parse_valuta_def)
  show "fst (parse self text) \<noteq> Inl YearNotResolved"
  proof (cases "extract_year self text")
    case (Inl e)
    then show ?thesis by (auto simp: parse_def dest: extract_year_error)
  next
    case (Inr self')
    then obtain y where y: "year self' = Some y" "1 \<le> y"
      by (auto dest: extract_year_resolved)
    have "scan self' (split_nl text) 0 [] \<noteq> Inl YearNotResolved"
      using scan_error(1) [of self' "split_nl text" 0 "[]" YearNotResolved] y by auto
    with Inr show ?thesis by (simp add: parse_def)
  qed
qed

theorem year_not_resolved_distinct_unreachable_witness:
  "year (init_parser False) = None \<and>
   parse_valuta (init_parser False) (ustr ''01.04'') = Inl YearNotResolved \<and>
   fst (parse (init_parser False)
     (ustr ''Kontoauszug vom 30.04.2021'' @ [10] @ ustr ''Buchungsdatum: 01.04.2021'' @ [10] @
      ustr ''A 01.04 1,00'')) \<noteq> Inl YearNotResolved"
  using year_not_resolved_distinct_unreachable
    [of "init_parser False" "ustr ''01.04''"
        "ustr ''Kontoauszug vom 30.04.2021'' @ [10] @ ustr ''Buchungsdatum: 01.04.2021'' @ [10] @
      ustr ''A 01.04 1,00''"]
  by (simp add: init_parser_def)

section \<open>The continuation collector\<close>

text \<open>
  The extended memo in the words of the specification: the window is the (stripped)
  lines after the transaction line, at most five, up to the first one that matches the
  transaction pattern or the booking-date pattern; the continuation lines are those of
  the window that are neither blank nor in the noise catalog; the memo is the
  description and the continuation lines, joined by single spaces.
\<close>

definition memo_stop :: "ustring \<Rightarrow> bool" where
  "memo_stop line \<longleftrightarrow>
     re_search TRANSACTION_PATTERN line \<noteq> None \<or> re_search BOOKING_DATE_PATTERN line \<noteq> None"

definition memo_window :: "ustring list \<Rightarrow> nat \<Rightarrow> ustring list" where
  "memo_window lines start =
     takeWhile (\<lambda>line. \<not> memo_stop line) (map strip (take 5 (drop start lines)))"

definition memo_continuations :: "ustring list \<Rightarrow> nat \<Rightarrow> ustring list" where
  "memo_continuations lines start =
     filter (\<lambda>line. line \<noteq> [] \<and> \<not> is_non_transaction_line line) (memo_window lines start)"

definition memo_spec :: "ustring \<Rightarrow> ustring list \<Rightarrow> nat \<Rightarrow> ustring" where
  "memo_spec description lines start =
     join (ustr '' '') (description # memo_continuations lines start)"

lemma collect_loop_eq:
  "collect_loop lines idx parts =
     parts @ filter (\<lambda>line. line \<noteq> [] \<and> \<not> is_non_transaction_line line)
               (takeWhile (\<lambda>line. \<not> memo_stop line) (map (\<lambda>i. strip (lines ! i)) idx))"
  by (induction idx arbitrary: parts) (auto simp: Let_def memo_stop_def)

lemma window_indices:
  "map (\<lambda>i. f (xs ! i)) [a ..< min (a + n) (length xs)] = map f (take n (drop a xs))"
proof (rule nth_equalityI)
  show "length (map (\<lambda>i. f (xs ! i)) [a ..< min (a + n) (length xs)]) =
        length (map f (take n (drop a xs)))"
    by (auto simp: min_def)
next
  fix i
  assume "i < length (map (\<lambda>i. f (xs ! i)) [a ..< min (a + n) (length xs)])"
  then have i: "i < n" "a + i < length xs" by (auto simp: min_def split: if_splits)
  then have "[a ..< min (a + n) (length xs)] ! i = a + i"
    by (intro nth_upt) (simp add: min_def)
  with i show "map (\<lambda>i. f (xs ! i)) [a ..< min (a + n) (length xs)] ! i =
        map f (take n (drop a xs)) ! i"
    by simp
qed

lemma collect_description_memo_spec:
  "collect_description lines start desc = memo_spec desc lines start"
  by (simp add: collect_description_def memo_spec_def memo_continuations_def memo_window_def
        collect_loop_eq window_indices)

lemma try_parse_transaction_memo:
  "try_parse_transaction self lines i bd = Inr (Some t) \<Longrightarrow>
     verwendungszweck t = Some (collect_description lines (i + 1) (beschreibung t))"
  by (auto simp: try_parse_transaction_def Let_def
           split: if_splits option.splits sum.splits)

text \<open>
  Claim C5. For every transaction line that parses, the extended memo is the
  description followed, space-joined and in order, by the non-blank, non-noise lines of
  a look-ahead window of at most five lines; blank and noise lines are skipped without
  ending the scan, the scan stops before the first line that matches the transaction
  pattern or a booking-date marker, and without continuation lines the memo is the
  description alone.
\<close>

theorem extended_memo_is_bounded_window:
  "try_parse_transaction self lines i bd = Inr (Some t) \<Longrightarrow>
     verwendungszweck t = Some (memo_spec (beschreibung t) lines (i + 1)) \<and>
     length (memo_window lines (i + 1)) \<le> 5 \<and>
     (memo_continuations lines (i + 1) = [] \<longrightarrow> verwendungszweck t = Some (beschreibung t))"
proof -
  assume a: "try_parse_transaction self lines i bd = Inr (Some t)"
  have m: "verwendungszweck t = Some (memo_spec (beschreibung t) lines (i + 1))"
    using try_parse_transaction_memo [OF a] by (simp add: collect_description_memo_spec)
  have "length (memo_window lines (i + 1)) \<le> length (map strip (take 5 (drop (i + 1) lines)))"
    unfolding memo_window_def by (rule length_takeWhile_le)
  then have w: "length (memo_window lines (i + 1)) \<le> 5" by simp
  from m w show ?thesis by (auto simp: memo_spec_def)
qed

text \<open>A sample block: a transaction, a continuation line, a blank line, a noise line,
  another continuation line, and the next transaction.\<close>

definition memo_lines :: "ustring list" where
  "memo_lines = [ustr ''A 01.04 1,00'', ustr '' foo '', [], ustr ''SEPA-X'', ustr ''bar'',
                 ustr ''B 02.04 2,00'', ustr ''baz'']"

definition sample_date :: date where "sample_date = \<lparr>year_of = 2021, month_of = 4, day_of = 1\<rparr>"

theorem extended_memo_is_bounded_window_witness:
  "(\<exists>t. try_parse_transaction \<lparr>verbose = False, year = Some 2021\<rparr> memo_lines 0 sample_date = Inr (Some t) \<and>
        verwendungszweck t = Some (memo_spec (beschreibung t) memo_lines 1) \<and>
        verwendungszweck t = Some (ustr ''A foo bar'')) \<and>
   memo_window memo_lines 1 = [ustr ''foo'', [], ustr ''SEPA-X'', ustr ''bar'']"
proof -
  have e: "try_parse_transaction \<lparr>verbose = False, year = Some 2021\<rparr> memo_lines 0 sample_date =
      Inr (Some \<lparr>buchungsdatum = sample_date, valuta = sample_date, beschreibung = ustr ''A'',
                 betrag = \<lparr>sign = False, coeff = 100, expo = - 2\<rparr>, waehrung = ustr ''EUR'',
                 gegenkonto_iban = None, gegenkonto_bic = None,
                 verwendungszweck = Some (ustr ''A foo bar'')\<rparr>)"
    by code_simp
  have w: "memo_window memo_lines 1 = [ustr ''foo'', [], ustr ''SEPA-X'', ustr ''bar'']"
    by code_simp
  from extended_memo_is_bounded_window [OF e] e w show ?thesis by simp
qed

section \<open>Classification of a line inside a booking block\<close>

text \<open>
  A line that matches both the transaction pattern and a pattern of the noise catalog:
  \<open>_try_parse_transaction\<close> tests the noise catalog first and returns \<^verbatim>\<open>None\<close>, so the
  line is not a transaction.
\<close>

theorem noise_wins_over_transaction_pattern:
  "re_search TRANSACTION_PATTERN (strip (ustr ''SEPA-Lastschrift 01.04 17,60-'')) \<noteq> None \<and>
   is_non_transaction_line (strip (ustr ''SEPA-Lastschrift 01.04 17,60-'')) \<and>
   try_parse_transaction \<lparr>verbose = False, year = Some 2021\<rparr>
     [ustr ''SEPA-Lastschrift 01.04 17,60-''] 0 sample_date = Inr None"
  by code_simp

text \<open>
  Claim C4, as the code has it. Inside a booking block the order is: a blank line or a
  line of the noise catalog is not a transaction (whether or not it matches the
  transaction pattern); otherwise a line that matches the transaction pattern is
  parsed as a transaction (a record or an error, never "no transaction"); a line that
  does not match it is not a transaction; and only for a line that is not a
  transaction is the booking-date marker tested, which ends the block without moving
  the cursor, anything else being skipped.
\<close>

theorem block_classification_order:
  assumes "i < length lines"
  shows
    "(strip (lines ! i) = [] \<or> is_non_transaction_line (strip (lines ! i)) \<longrightarrow>
        try_parse_transaction self lines i bd = Inr None) \<and>
     (strip (lines ! i) \<noteq> [] \<and> \<not> is_non_transaction_line (strip (lines ! i)) \<and>
      re_search TRANSACTION_PATTERN (strip (lines ! i)) \<noteq> None \<longrightarrow>
        try_parse_transaction self lines i bd \<noteq> Inr None) \<and>
     (re_search TRANSACTION_PATTERN (strip (lines ! i)) = None \<longrightarrow>
        try_parse_transaction self lines i bd = Inr None) \<and>
     (try_parse_transaction self lines i bd = Inr None \<longrightarrow>
        scan_block self lines i bd ts =
          (if re_search BOOKING_DATE_PATTERN (lines ! i) \<noteq> None then scan self lines i ts
           else scan_block self lines (i + 1) bd ts)) \<and>
     (\<forall>t. try_parse_transaction self lines i bd = Inr (Some t) \<longrightarrow>
        scan_block self lines i bd ts = scan_block self lines (i + 1) bd (ts @ [t]))"
proof (intro conjI allI impI)
  assume "strip (lines ! i) = [] \<or> is_non_transaction_line (strip (lines ! i))"
  with assms show "try_parse_transaction self lines i bd = Inr None"
    by (auto simp: try_parse_transaction_def Let_def)
next
  assume "strip (lines ! i) \<noteq> [] \<and> \<not> is_non_transaction_line (strip (lines ! i)) \<and>
      re_search TRANSACTION_PATTERN (strip (lines ! i)) \<noteq> None"
  with assms show "try_parse_transaction self lines i bd \<noteq> Inr None"
    by (auto simp: try_parse_transaction_def Let_def split: sum.splits)
next
  assume "re_search TRANSACTION_PATTERN (strip (lines ! i)) = None"
  with assms show "try_parse_transaction self lines i bd = Inr None"
    by (auto simp: try_parse_transaction_def Let_def)
next
  assume "try_parse_transaction self lines i bd = Inr None"
  with assms show "scan_block self lines i bd ts =
          (if re_search BOOKING_DATE_PATTERN (lines ! i) \<noteq> None then scan self lines i ts
           else scan_block self lines (i + 1) bd ts)"
    by (simp add: scan_block.simps [of self lines i bd ts])
next
  fix t
  assume "try_parse_transaction self lines i bd = Inr (Some t)"
  with assms show "scan_block self lines i bd ts = scan_block self lines (i + 1) bd (ts @ [t])"
    by (simp add: scan_block.simps [of self lines i bd ts])
qed

theorem block_classification_order_witness:
  "(0::nat) < length [ustr ''SEPA-Lastschrift 01.04 17,60-''] \<and>
   is_non_transaction_line (strip ([ustr ''SEPA-Lastschrift 01.04 17,60-''] ! 0)) \<and>
   try_parse_transaction \<lparr>verbose = False, year = Some 2021\<rparr>
     [ustr ''SEPA-Lastschrift 01.04 17,60-''] 0 sample_date = Inr None \<and>
   scan_block \<lparr>verbose = False, year = Some 2021\<rparr>
     [ustr ''SEPA-Lastschrift 01.04 17,60-''] 0 sample_date [] = Inr []"
proof -
  have l: "(0::nat) < length [ustr ''SEPA-Lastschrift 01.04 17,60-'']" by simp
  have n: "is_non_transaction_line (strip ([ustr ''SEPA-Lastschrift 01.04 17,60-''] ! 0))"
    by code_simp
  have s: "scan_block \<lparr>verbose = False, year = Some 2021\<rparr>
     [ustr ''SEPA-Lastschrift 01.04 17,60-''] 0 sample_date [] = Inr []"
    by code_simp
  from block_classification_order [OF l, of "\<lparr>verbose = False, year = Some 2021\<rparr>" sample_date "[]"] l n s
  show ?thesis by blast
qed

section \<open>The iterations of the scanner\<close>

text \<open>
  What the two loops of \<open>parse\<close> do, iteration by iteration. The functions \<open>visits\<close>
  and \<open>visits_block\<close> are \<open>scan\<close> and \<open>scan_block\<close> with the same tests in the same
  order; instead of the result they return one entry for each iteration, with the
  cursor of that iteration:
  \<^item> \<open>Seeking i\<close>: the outer loop found no marker in line \<open>i\<close> and moved on;
  \<^item> \<open>MarkerFound i d\<close>: the outer loop found a marker with the date \<open>d\<close>;
  \<^item> \<open>MarkerInvalid i e\<close>: the date of the marker raised \<open>e\<close>;
  \<^item> \<open>Emitted i t\<close>: the inner loop appended the record \<open>t\<close> of line \<open>i\<close>;
  \<^item> \<open>Raised i e\<close>: \<open>_try_parse_transaction\<close> raised \<open>e\<close> at line \<open>i\<close>;
  \<^item> \<open>Skipped i\<close>: line \<open>i\<close> gave no transaction and is not a marker;
  \<^item> \<open>BlockEnd i\<close>: line \<open>i\<close> gave no transaction and holds a marker: \<^verbatim>\<open>break\<close>.
\<close>

datatype visit =
    Seeking nat
  | MarkerFound nat date
  | MarkerInvalid nat error
  | Emitted nat Transaction
  | Raised nat error
  | Skipped nat
  | BlockEnd nat

fun cursor :: "visit \<Rightarrow> nat" where
  "cursor (Seeking i) = i"
| "cursor (MarkerFound i d) = i"
| "cursor (MarkerInvalid i e) = i"
| "cursor (Emitted i t) = i"
| "cursor (Raised i e) = i"
| "cursor (Skipped i) = i"
| "cursor (BlockEnd i) = i"

function visits :: "TransactionParser \<Rightarrow> ustring list \<Rightarrow> nat \<Rightarrow> visit list"
  and visits_block :: "TransactionParser \<Rightarrow> ustring list \<Rightarrow> nat \<Rightarrow> date \<Rightarrow> visit list"
where
  "visits self lines i =
     (if i < length lines then
        (case re_search BOOKING_DATE_PATTERN (strip (lines ! i)) of
           Some booking_match \<Rightarrow>
             (case parse_date (group booking_match 1) of
                Inl e \<Rightarrow> [MarkerInvalid i e]
              | Inr booking_date \<Rightarrow>
                  MarkerFound i booking_date # visits_block self lines (i + 1) booking_date)
         | None \<Rightarrow> Seeking i # visits self lines (i + 1))
      else [])"
| "visits_block self lines i booking_date =
     (if i < length lines then
        (case try_parse_transaction self lines i booking_date of
           Inl e \<Rightarrow> [Raised i e]
         | Inr (Some tr) \<Rightarrow> Emitted i tr # visits_block self lines (i + 1) booking_date
         | Inr None \<Rightarrow>
             if re_search BOOKING_DATE_PATTERN (lines ! i) \<noteq> None
             then BlockEnd i # visits self lines i
             else Skipped i # visits_block self lines (i + 1) booking_date)
      else visits self lines i)"
  by pat_completeness auto
termination
  by (relation "measure (\<lambda>x. case x of
          Inl (self, lines, i) \<Rightarrow> 2 * (length lines - i)
        | Inr (self, lines, i, bd) \<Rightarrow> 2 * (length lines - i) + 1)") auto

declare visits.simps [simp del] visits_block.simps [simp del]

text \<open>The result of \<open>parse\<close>, read off the iterations: the records appended, or the
  exception.\<close>

fun replay :: "Transaction list \<Rightarrow> visit list \<Rightarrow> error + Transaction list" where
  "replay ts [] = Inr ts"
| "replay ts (Emitted i t # vs) = replay (ts @ [t]) vs"
| "replay ts (Raised i e # vs) = Inl e"
| "replay ts (MarkerInvalid i e # vs) = Inl e"
| "replay ts (Seeking i # vs) = replay ts vs"
| "replay ts (MarkerFound i d # vs) = replay ts vs"
| "replay ts (Skipped i # vs) = replay ts vs"
| "replay ts (BlockEnd i # vs) = replay ts vs"

lemma scan_replay:
  "scan self lines i ts = replay ts (visits self lines i)"
  "scan_block self lines i bd ts = replay ts (visits_block self lines i bd)"
proof (induction self lines i ts and self lines i bd ts rule: scan_scan_block.induct)
  case (1 self lines i transactions)
  show ?case
  proof (cases "i < length lines")
    case False
    then show ?thesis
      by (simp add: scan.simps [of self lines i] visits.simps [of self lines i])
  next
    case True
    show ?thesis
    proof (cases "re_search BOOKING_DATE_PATTERN (strip (lines ! i))")
      case None
      with True "1.IH" show ?thesis
        by (simp add: scan.simps [of self lines i] visits.simps [of self lines i])
    next
      case (Some m)
      with True "1.IH" show ?thesis
        by (cases "parse_date (group m 1)")
           (simp_all add: scan.simps [of self lines i] visits.simps [of self lines i])
    qed
  qed
next
  case (2 self lines i booking_date transactions)
  show ?case
  proof (cases "i < length lines")
    case False
    with "2.IH" show ?thesis
      by (simp add: scan_block.simps [of self lines i] visits_block.simps [of self lines i])
  next
    case True
    show ?thesis
    proof (cases "try_parse_transaction self lines i booking_date")
      case (Inl e)
      with True show ?thesis
        by (simp add: scan_block.simps [of self lines i] visits_block.simps [of self lines i])
    next
      case (Inr r)
      show ?thesis
      proof (cases r)
        case (Some t)
        with True Inr "2.IH" show ?thesis
          by (simp add: scan_block.simps [of self lines i]
                visits_block.simps [of self lines i])
      next
        case None
        show ?thesis
        proof (cases "re_search BOOKING_DATE_PATTERN (lines ! i) \<noteq> None")
          case m: True
          from "2.IH" True Inr None m show ?thesis
            by (simp add: scan_block.simps [of self lines i]
                  visits_block.simps [of self lines i])
        next
          case m: False
          from "2.IH" True Inr None m show ?thesis
            by (simp add: scan_block.simps [of self lines i]
                  visits_block.simps [of self lines i])
        qed
      qed
    qed
  qed
qed

definition hard_error :: "visit \<Rightarrow> error option" where
  "hard_error v = (case v of Raised i e \<Rightarrow> Some e | MarkerInvalid i e \<Rightarrow> Some e | _ \<Rightarrow> None)"

lemma visits_hard_error:
  "v \<in> set (visits self lines i) \<Longrightarrow> hard_error v = Some e \<Longrightarrow>
     \<forall>ts. replay ts (visits self lines i) = Inl e"
  "v \<in> set (visits_block self lines i bd) \<Longrightarrow> hard_error v = Some e \<Longrightarrow>
     \<forall>ts. replay ts (visits_block self lines i bd) = Inl e"
proof (induction self lines i and self lines i bd rule: visits_visits_block.induct)
  case (1 self lines i)
  show ?case
  proof (cases "i < length lines")
    case False
    with "1.prems" show ?thesis by (simp add: visits.simps [of self lines i])
  next
    case True
    show ?thesis
    proof (cases "re_search BOOKING_DATE_PATTERN (strip (lines ! i))")
      case None
      with True have eq: "visits self lines i = Seeking i # visits self lines (i + 1)"
        by (simp add: visits.simps [of self lines i])
      with "1.prems" have "v \<in> set (visits self lines (i + 1))"
        by (auto simp: hard_error_def)
      with "1.IH" True None "1.prems"(2) eq show ?thesis
        by simp
    next
      case (Some m)
      show ?thesis
      proof (cases "parse_date (group m 1)")
        case (Inl e')
        with True Some have "visits self lines i = [MarkerInvalid i e']"
          by (simp add: visits.simps [of self lines i])
        with "1.prems" show ?thesis by (auto simp: hard_error_def)
      next
        case (Inr d)
        with True Some have eq:
          "visits self lines i = MarkerFound i d # visits_block self lines (i + 1) d"
          by (simp add: visits.simps [of self lines i])
        with "1.prems" have "v \<in> set (visits_block self lines (i + 1) d)"
          by (auto simp: hard_error_def)
        with "1.IH" True Some Inr "1.prems"(2) eq show ?thesis
          by simp
      qed
    qed
  qed
next
  case (2 self lines i booking_date)
  show ?case
  proof (cases "i < length lines")
    case False
    with "2.prems" "2.IH" show ?thesis
      by (simp add: visits_block.simps [of self lines i])
  next
    case True
    show ?thesis
    proof (cases "try_parse_transaction self lines i booking_date")
      case (Inl e')
      with True have "visits_block self lines i booking_date = [Raised i e']"
        by (simp add: visits_block.simps [of self lines i])
      with "2.prems" show ?thesis by (auto simp: hard_error_def)
    next
      case (Inr r)
      show ?thesis
      proof (cases r)
        case (Some t)
        with True Inr have eq: "visits_block self lines i booking_date =
            Emitted i t # visits_block self lines (i + 1) booking_date"
          by (simp add: visits_block.simps [of self lines i])
        with "2.prems" have "v \<in> set (visits_block self lines (i + 1) booking_date)"
          by (auto simp: hard_error_def)
        with "2.IH" True Inr Some "2.prems"(2) eq show ?thesis
          by simp
      next
        case None
        show ?thesis
        proof (cases "re_search BOOKING_DATE_PATTERN (lines ! i) \<noteq> None")
          case m: True
          with True Inr None have eq: "visits_block self lines i booking_date =
              BlockEnd i # visits self lines i"
            by (simp add: visits_block.simps [of self lines i])
          with "2.prems" have "v \<in> set (visits self lines i)"
            by (auto simp: hard_error_def)
          with "2.IH" True Inr None m "2.prems"(2) eq show ?thesis
            by simp
        next
          case m: False
          with True Inr None have eq: "visits_block self lines i booking_date =
              Skipped i # visits_block self lines (i + 1) booking_date"
            by (simp add: visits_block.simps [of self lines i])
          with "2.prems" have "v \<in> set (visits_block self lines (i + 1) booking_date)"
            by (auto simp: hard_error_def)
          with "2.IH" True Inr None m "2.prems"(2) eq show ?thesis
            by simp
        qed
      qed
    qed
  qed
qed

section \<open>Errors abort the whole parse\<close>

text \<open>The iterations of a whole run of \<open>parse\<close> (none when the year cannot be resolved),
  and the records that a list of iterations appends.\<close>

definition parse_visits :: "TransactionParser \<Rightarrow> ustring \<Rightarrow> visit list" where
  "parse_visits self text =
     (case extract_year self text of
        Inl e \<Rightarrow> []
      | Inr self' \<Rightarrow> visits self' (split_nl text) 0)"

fun emitted :: "visit list \<Rightarrow> Transaction list" where
  "emitted [] = []"
| "emitted (Emitted i t # vs) = t # emitted vs"
| "emitted (v # vs) = emitted vs"

lemma replay_Inr:
  "replay ts vs = Inr rs \<Longrightarrow> (\<forall>v\<in>set vs. hard_error v = None) \<and> rs = ts @ emitted vs"
  by (induction ts vs rule: replay.induct) (auto simp: hard_error_def)

lemma parse_replay:
  "extract_year self text = Inr self' \<Longrightarrow>
     fst (parse self text) = replay [] (parse_visits self text)"
  by (simp add: parse_def parse_visits_def scan_replay)

text \<open>
  Claim C7. When a hard error is raised, at the year resolution or in any iteration of
  the scanner (the date of a marker, the value date or the amount of a matched
  transaction line), the result of \<open>parse\<close> is that error and no list, however many
  records the earlier iterations had appended; a list is returned only when no
  iteration raised, and then it holds all the appended records.
\<close>

theorem parse_error_is_atomic:
  "(extract_year self text = Inl e \<longrightarrow> fst (parse self text) = Inl e) \<and>
   (v \<in> set (parse_visits self text) \<and> hard_error v = Some e \<longrightarrow>
      fst (parse self text) = Inl e) \<and>
   (fst (parse self text) = Inr ts \<longrightarrow>
      (\<forall>w\<in>set (parse_visits self text). hard_error w = None) \<and>
      ts = emitted (parse_visits self text))"
proof (intro conjI impI)
  assume "extract_year self text = Inl e"
  then show "fst (parse self text) = Inl e" by (simp add: parse_def)
next
  assume a: "v \<in> set (parse_visits self text) \<and> hard_error v = Some e"
  then obtain self' where y: "extract_year self text = Inr self'"
    by (cases "extract_year self text") (auto simp: parse_visits_def)
  with a have "v \<in> set (visits self' (split_nl text) 0)" by (simp add: parse_visits_def)
  with a have "replay [] (visits self' (split_nl text) 0) = Inl e"
    using visits_hard_error(1) by blast
  with y show "fst (parse self text) = Inl e" by (simp add: parse_def scan_replay)
next
  assume a: "fst (parse self text) = Inr ts"
  then obtain self' where y: "extract_year self text = Inr self'"
    by (cases "extract_year self text") (auto simp: parse_def)
  from a parse_replay [OF y] have "replay [] (parse_visits self text) = Inr ts" by simp
  from replay_Inr [OF this]
  show "\<forall>w\<in>set (parse_visits self text). hard_error w = None" by simp
next
  assume a: "fst (parse self text) = Inr ts"
  then obtain self' where y: "extract_year self text = Inr self'"
    by (cases "extract_year self text") (auto simp: parse_def)
  from a parse_replay [OF y] have "replay [] (parse_visits self text) = Inr ts" by simp
  from replay_Inr [OF this]
  show "ts = emitted (parse_visits self text)" by simp
qed

text \<open>A statement whose second transaction line has a malformed amount.\<close>

definition failing_text :: ustring where
  "failing_text =
     ustr ''Kontoauszug vom 30.04.2021'' @ [10] @ ustr ''Buchungsdatum: 01.04.2021'' @ [10] @
     ustr ''A 01.04 1,00'' @ [10] @ ustr ''B 02.04 1,2,3''"

theorem parse_error_is_atomic_witness:
  "Raised 3 MalformedAmount \<in> set (parse_visits (init_parser False) failing_text) \<and>
   hard_error (Raised 3 MalformedAmount) = Some MalformedAmount \<and>
   length (emitted (parse_visits (init_parser False) failing_text)) = 1 \<and>
   fst (parse (init_parser False) failing_text) = Inl MalformedAmount"
proof -
  have a: "Raised 3 MalformedAmount \<in> set (parse_visits (init_parser False) failing_text) \<and>
     hard_error (Raised 3 MalformedAmount) = Some MalformedAmount"
    by code_simp
  have b: "length (emitted (parse_visits (init_parser False) failing_text)) = 1"
    by code_simp
  from parse_error_is_atomic
    [of "init_parser False" failing_text MalformedAmount "Raised 3 MalformedAmount"] a b
  show ?thesis by blast
qed

section \<open>Progress of the cursor\<close>

text \<open>How the cursor moves from one iteration to the next: it stays where it is
  after a \<^verbatim>\<open>break\<close> (the outer loop looks at the marker line again), it advances by
  one line otherwise, and nothing follows an iteration that raised.\<close>

fun step_ok :: "visit \<Rightarrow> visit \<Rightarrow> bool" where
  "step_ok (BlockEnd i) w \<longleftrightarrow> cursor w = i"
| "step_ok (Seeking i) w \<longleftrightarrow> cursor w = i + 1"
| "step_ok (MarkerFound i d) w \<longleftrightarrow> cursor w = i + 1"
| "step_ok (Emitted i t) w \<longleftrightarrow> cursor w = i + 1"
| "step_ok (Skipped i) w \<longleftrightarrow> cursor w = i + 1"
| "step_ok (MarkerInvalid i e) w \<longleftrightarrow> False"
| "step_ok (Raised i e) w \<longleftrightarrow> False"

lemma visits_head:
  "visits self lines i = v # vs \<Longrightarrow> cursor v = i"
  "visits_block self lines i bd = v # vs \<Longrightarrow> cursor v = i"
proof -
  show a: "cursor v = i" if "visits self lines i = v # vs" for v vs
    using that
    by (auto simp: visits.simps [of self lines i] split: if_splits option.splits sum.splits)
  show "cursor v = i" if "visits_block self lines i bd = v # vs"
    using that a
    by (auto simp: visits_block.simps [of self lines i] split: if_splits option.splits sum.splits)
qed

lemma successively_Cons_head:
  "successively P vs \<Longrightarrow> (\<And>w ws. vs = w # ws \<Longrightarrow> P v w) \<Longrightarrow> successively P (v # vs)"
  by (cases vs) auto

lemma visits_steps:
  "successively step_ok (visits self lines i)"
  "successively step_ok (visits_block self lines i bd)"
proof (induction self lines i and self lines i bd rule: visits_visits_block.induct)
  case (1 self lines i)
  show ?case
  proof (cases "i < length lines")
    case False
    then show ?thesis by (simp add: visits.simps [of self lines i])
  next
    case True
    show ?thesis
    proof (cases "re_search BOOKING_DATE_PATTERN (strip (lines ! i))")
      case None
      with True have eq: "visits self lines i = Seeking i # visits self lines (i + 1)"
        by (simp add: visits.simps [of self lines i])
      from "1.IH" True None have "successively step_ok (visits self lines (i + 1))" by simp
      then show ?thesis unfolding eq
        by (rule successively_Cons_head) (auto dest: visits_head)
    next
      case (Some m)
      show ?thesis
      proof (cases "parse_date (group m 1)")
        case (Inl e)
        with True Some show ?thesis by (simp add: visits.simps [of self lines i])
      next
        case (Inr d)
        with True Some have eq:
          "visits self lines i = MarkerFound i d # visits_block self lines (i + 1) d"
          by (simp add: visits.simps [of self lines i])
        from "1.IH" True Some Inr
        have "successively step_ok (visits_block self lines (i + 1) d)" by simp
        then show ?thesis unfolding eq
          by (rule successively_Cons_head) (auto dest: visits_head)
      qed
    qed
  qed
next
  case (2 self lines i booking_date)
  show ?case
  proof (cases "i < length lines")
    case False
    with "2.IH" show ?thesis by (simp add: visits_block.simps [of self lines i])
  next
    case True
    show ?thesis
    proof (cases "try_parse_transaction self lines i booking_date")
      case (Inl e)
      with True show ?thesis by (simp add: visits_block.simps [of self lines i])
    next
      case (Inr r)
      show ?thesis
      proof (cases r)
        case (Some t)
        with True Inr have eq: "visits_block self lines i booking_date =
            Emitted i t # visits_block self lines (i + 1) booking_date"
          by (simp add: visits_block.simps [of self lines i])
        from "2.IH" True Inr Some
        have "successively step_ok (visits_block self lines (i + 1) booking_date)" by simp
        then show ?thesis unfolding eq
          by (rule successively_Cons_head) (auto dest: visits_head)
      next
        case None
        show ?thesis
        proof (cases "re_search BOOKING_DATE_PATTERN (lines ! i) \<noteq> None")
          case m: True
          with True Inr None have eq: "visits_block self lines i booking_date =
              BlockEnd i # visits self lines i"
            by (simp add: visits_block.simps [of self lines i])
          from "2.IH" True Inr None m
          have "successively step_ok (visits self lines i)" by simp
          then show ?thesis unfolding eq
            by (rule successively_Cons_head) (auto dest: visits_head)
        next
          case m: False
          with True Inr None have eq: "visits_block self lines i booking_date =
              Skipped i # visits_block self lines (i + 1) booking_date"
            by (simp add: visits_block.simps [of self lines i])
          from "2.IH" True Inr None m
          have "successively step_ok (visits_block self lines (i + 1) booking_date)" by simp
          then show ?thesis unfolding eq
            by (rule successively_Cons_head) (auto dest: visits_head)
        qed
      qed
    qed
  qed
qed

lemma visits_emitted:
  "Emitted j t \<in> set (visits self lines i) \<Longrightarrow>
     j < length lines \<and> (\<exists>bd. try_parse_transaction self lines j bd = Inr (Some t))"
  "Emitted j t \<in> set (visits_block self lines i bd) \<Longrightarrow>
     j < length lines \<and> (\<exists>bd. try_parse_transaction self lines j bd = Inr (Some t))"
proof (induction self lines i and self lines i bd rule: visits_visits_block.induct)
  case (1 self lines i)
  from "1.prems" "1.IH" show ?case
    by (auto simp: visits.simps [of self lines i] split: if_splits option.splits sum.splits)
next
  case (2 self lines i booking_date)
  from "2.prems" "2.IH" show ?case
    by (auto simp: visits_block.simps [of self lines i]
             split: if_splits option.splits sum.splits)
qed


lemma step_ok_cursor: "step_ok v w \<Longrightarrow> cursor v \<le> cursor w \<and> cursor w \<le> cursor v + 1"
  by (cases v) auto

lemma visits_sorted:
  "successively step_ok vs \<Longrightarrow> sorted_wrt (\<lambda>v w. cursor v \<le> cursor w) vs"
proof -
  assume "successively step_ok vs"
  then have "successively (\<lambda>v w. cursor v \<le> cursor w) vs"
    by (rule successively_mono) (auto dest: step_ok_cursor)
  then show ?thesis
    by (subst (asm) successively_conv_sorted_wrt) (auto simp: transp_def)
qed

lemma emitted_matches:
  "try_parse_transaction self lines j bd = Inr (Some t) \<Longrightarrow>
     re_search TRANSACTION_PATTERN (strip (lines ! j)) \<noteq> None"
  by (auto simp: try_parse_transaction_def Let_def split: if_splits option.splits sum.splits)

lemma memo_window_nth:
  assumes "n < length (memo_window lines s)"
  shows "s + n < length lines \<and> re_search TRANSACTION_PATTERN (strip (lines ! (s + n))) = None"
proof -
  let ?xs = "map strip (take 5 (drop s lines))"
  let ?P = "\<lambda>line. \<not> memo_stop line"
  from assms have n: "n < length (takeWhile ?P ?xs)" by (simp add: memo_window_def)
  have le: "length (takeWhile ?P ?xs) \<le> length ?xs" by (rule length_takeWhile_le)
  with n have nx: "n < length ?xs" by simp
  then have b: "s + n < length lines" by auto
  from n have "takeWhile ?P ?xs ! n = ?xs ! n" by (rule takeWhile_nth)
  moreover from n have "takeWhile ?P ?xs ! n \<in> set (takeWhile ?P ?xs)" by simp
  then have "?P (takeWhile ?P ?xs ! n)" by (rule set_takeWhileD [THEN conjunct2])
  ultimately have "?P (?xs ! n)" by simp
  moreover from nx b have "?xs ! n = strip (lines ! (s + n))" by (simp add: nth_drop)
  ultimately have "\<not> memo_stop (strip (lines ! (s + n)))" by simp
  then have "re_search TRANSACTION_PATTERN (strip (lines ! (s + n))) = None"
    unfolding memo_stop_def by blast
  with b show ?thesis by blast
qed

text \<open>A statement with one transaction line and one continuation line.\<close>

definition continuation_text :: ustring where
  "continuation_text =
     ustr ''Kontoauszug vom 30.04.2021'' @ [10] @ ustr ''Buchungsdatum: 01.04.2021'' @ [10] @
     ustr ''A 01.04 1,00'' @ [10] @ ustr ''foo''"

definition continuation_record :: Transaction where
  "continuation_record =
     \<lparr>buchungsdatum = sample_date, valuta = sample_date, beschreibung = ustr ''A'',
      betrag = \<lparr>sign = False, coeff = 100, expo = - 2\<rparr>, waehrung = ustr ''EUR'',
      gegenkonto_iban = None, gegenkonto_bic = None,
      verwendungszweck = Some (ustr ''A foo'')\<rparr>"

lemma continuation_text_visits:
  "parse_visits (init_parser False) continuation_text =
     [Seeking 0, MarkerFound 1 sample_date, Emitted 2 continuation_record, Skipped 3]"
  by code_simp

lemma continuation_text_window:
  "memo_window (split_nl continuation_text) 3 = [ustr ''foo'']"
  by code_simp

text \<open>
  The record of line 2 has absorbed line 3 into its memo, and the next iteration
  examines line 3 again: after emitting a record the cursor moves by one line, not
  past the lines that the memo consumed.
\<close>

theorem consumed_line_examined_again:
  "map cursor (parse_visits (init_parser False) continuation_text) = [0, 1, 2, 3] \<and>
   map verwendungszweck (emitted (parse_visits (init_parser False) continuation_text))
     = [Some (ustr ''A foo'')] \<and>
   memo_window (split_nl continuation_text) 3 = [ustr ''foo''] \<and>
   parse_visits (init_parser False) continuation_text ! 3 = Skipped 3"
  by (simp add: continuation_text_visits continuation_text_window continuation_record_def)

text \<open>
  Claim C8, as the code has it. In every run of \<open>parse\<close> the cursor never moves
  back and moves by at most one line from one iteration to the next; after emitting a
  record the scanner is at the very next line, and it never comes back to the line of
  an emitted record; the lines that the memo of a record has absorbed are examined
  again, but none of them is ever emitted as a record.
\<close>

theorem scanner_moves_forward:
  fixes self input
  defines "V \<equiv> parse_visits self input"
  shows
    "(\<forall>k. Suc k < length V \<longrightarrow>
        cursor (V ! k) \<le> cursor (V ! Suc k) \<and> cursor (V ! Suc k) \<le> cursor (V ! k) + 1) \<and>
     (\<forall>k i t. Suc k < length V \<and> V ! k = Emitted i t \<longrightarrow> cursor (V ! Suc k) = i + 1) \<and>
     (\<forall>k k' i t. k < k' \<and> k' < length V \<and> V ! k = Emitted i t \<longrightarrow> i < cursor (V ! k')) \<and>
     (\<forall>i t j t'. Emitted i t \<in> set V \<and> i < j \<and>
        j \<le> i + length (memo_window (split_nl input) (i + 1)) \<longrightarrow> Emitted j t' \<notin> set V)"
proof -
  have s: "successively step_ok V"
    unfolding V_def parse_visits_def by (auto split: sum.splits intro: visits_steps(1))
  have step: "step_ok (V ! k) (V ! Suc k)" if "Suc k < length V" for k
    using s that by (rule successively_nth)
  have one: "cursor (V ! k) \<le> cursor (V ! Suc k) \<and> cursor (V ! Suc k) \<le> cursor (V ! k) + 1"
    if "Suc k < length V" for k
    using step [OF that] by (rule step_ok_cursor)
  have two: "cursor (V ! Suc k) = i + 1" if "Suc k < length V" "V ! k = Emitted i t" for k i t
    using step [OF that(1)] that(2) by simp
  have mono: "cursor (V ! a) \<le> cursor (V ! b)" if "a \<le> b" "b < length V" for a b
  proof (cases "a = b")
    case False
    with that have "a < b" by simp
    with visits_sorted [OF s] that(2) show ?thesis by (simp add: sorted_wrt_iff_nth_less)
  qed simp
  have three: "i < cursor (V ! k')" if "k < k'" "k' < length V" "V ! k = Emitted i t" for k k' i t
  proof -
    from that have "Suc k < length V" by simp
    from two [OF this that(3)] have "cursor (V ! Suc k) = i + 1" .
    moreover from that have "cursor (V ! Suc k) \<le> cursor (V ! k')" by (intro mono) simp_all
    ultimately show ?thesis by simp
  qed
  have four: "Emitted j t' \<notin> set V"
    if "Emitted i t \<in> set V" "i < j" "j \<le> i + length (memo_window (split_nl input) (i + 1))"
    for i t j t'
  proof
    assume "Emitted j t' \<in> set V"
    then obtain self' where "Emitted j t' \<in> set (visits self' (split_nl input) 0)"
      unfolding V_def parse_visits_def by (auto split: sum.splits)
    from visits_emitted(1) [OF this] emitted_matches
    have m: "re_search TRANSACTION_PATTERN (strip (split_nl input ! j)) \<noteq> None" by blast
    from that have "j - (i + 1) < length (memo_window (split_nl input) (i + 1))" by simp
    from memo_window_nth [OF this] that(2)
    have "re_search TRANSACTION_PATTERN (strip (split_nl input ! j)) = None" by simp
    with m show False by simp
  qed
  from one two three four show ?thesis by blast
qed

theorem scanner_moves_forward_witness:
  "Suc 2 < length (parse_visits (init_parser False) continuation_text) \<and>
   parse_visits (init_parser False) continuation_text ! 2 = Emitted 2 continuation_record \<and>
   cursor (parse_visits (init_parser False) continuation_text ! Suc 2) = 2 + 1"
proof -
  have a: "Suc 2 < length (parse_visits (init_parser False) continuation_text) \<and>
   parse_visits (init_parser False) continuation_text ! 2 = Emitted 2 continuation_record"
    by (simp add: continuation_text_visits)
  from scanner_moves_forward [of "init_parser False" continuation_text] a
  show ?thesis by blast
qed

end
